theory Spec2Isabelle
  imports Main "HOL-Library.Word"
begin

section \<open>Python strings and the built-ins the exporter relies on\<close>

text \<open>
  A Python \<open>str\<close> is a sequence of Unicode code points, and \<open>len\<close> counts code points,
  so a string is a list of code points. A \<open>bytes\<close> value is a list of octets.
\<close>

type_synonym codepoint = nat
type_synonym pystr = "codepoint list"
type_synonym blob = "8 word list"

definition py :: "string \<Rightarrow> pystr" where
  \<comment> \<open>an ASCII literal of the source, as code points\<close>
  "py s = map of_char s"

definition isspace :: "codepoint \<Rightarrow> bool" where
  \<comment> \<open>the characters \<open>str.strip()\<close> removes: what \<open>str.isspace\<close> accepts\<close>
  "isspace c = ((9 \<le> c \<and> c \<le> 13) \<or> (28 \<le> c \<and> c \<le> 32) \<or> c = 133 \<or> c = 160
     \<or> c = 5760 \<or> (8192 \<le> c \<and> c \<le> 8202) \<or> c = 8232 \<or> c = 8233
     \<or> c = 8239 \<or> c = 8287 \<or> c = 12288)"

definition is_linebreak :: "codepoint \<Rightarrow> bool" where
  \<comment> \<open>the line boundaries of \<open>str.splitlines()\<close>: LF, VT, FF, CR, FS, GS, RS, NEL, LS, PS\<close>
  "is_linebreak c = ((10 \<le> c \<and> c \<le> 13) \<or> (28 \<le> c \<and> c \<le> 30) \<or> c = 133
     \<or> c = 8232 \<or> c = 8233)"

definition strip :: "pystr \<Rightarrow> pystr" where
  "strip s = rev (dropWhile isspace (rev (dropWhile isspace s)))"

definition replace_char :: "codepoint \<Rightarrow> codepoint \<Rightarrow> pystr \<Rightarrow> pystr" where
  \<comment> \<open>\<open>s.replace(a, b)\<close> for one-character \<open>a\<close> and \<open>b\<close>\<close>
  "replace_char a b s = map (\<lambda>c. if c = a then b else c) s"

fun splitlines :: "pystr \<Rightarrow> pystr list" where
  \<comment> \<open>CR LF is one boundary; a final boundary opens no further line\<close>
  "splitlines [] = []"
| "splitlines (c # cs) =
     (if c = 13 \<and> take 1 cs = [10] then [] # splitlines (drop 1 cs)
      else if is_linebreak c then [] # splitlines cs
      else (case splitlines cs of [] \<Rightarrow> [[c]] | l # ls \<Rightarrow> (c # l) # ls))"

fun join :: "pystr \<Rightarrow> pystr list \<Rightarrow> pystr" where
  "join sep [] = []"
| "join sep [x] = x"
| "join sep (x # y # ys) = x @ sep @ join sep (y # ys)"

definition startswith :: "pystr \<Rightarrow> pystr \<Rightarrow> bool" where
  "startswith s p = (take (length p) s = p)"

definition endswith :: "pystr \<Rightarrow> pystr \<Rightarrow> bool" where
  "endswith s p = (length p \<le> length s \<and> drop (length s - length p) s = p)"

fun contains :: "pystr \<Rightarrow> pystr \<Rightarrow> bool" where
  \<comment> \<open>\<open>p in s\<close>\<close>
  "contains [] p = (p = [])"
| "contains (c # cs) p = (startswith (c # cs) p \<or> contains cs p)"

text \<open>
  \<open>str.isalpha\<close> and \<open>str.isdigit\<close> read the Unicode Character Database, which is not
  part of the program. Their ASCII part is written out; above U+007F the tables are
  parameters of the model. The table of \<open>str.isdecimal\<close> (the decimal digits proper) is
  not read by the program; it is there to state what the specification calls decimal
  digits, which \<open>str.isdigit\<close> exceeds by the superscript and circled digits.
\<close>

record ucd =
  alpha_tab :: "codepoint \<Rightarrow> bool"
  digit_tab :: "codepoint \<Rightarrow> bool"
  decimal_tab :: "codepoint \<Rightarrow> bool"

definition isalpha :: "ucd \<Rightarrow> codepoint \<Rightarrow> bool" where
  "isalpha U c = (if c < 128 then (65 \<le> c \<and> c \<le> 90) \<or> (97 \<le> c \<and> c \<le> 122)
                  else alpha_tab U c)"

definition isdigit :: "ucd \<Rightarrow> codepoint \<Rightarrow> bool" where
  "isdigit U c = (if c < 128 then 48 \<le> c \<and> c \<le> 57 else digit_tab U c)"

definition isdecimal :: "ucd \<Rightarrow> codepoint \<Rightarrow> bool" where
  "isdecimal U c = (if c < 128 then 48 \<le> c \<and> c \<le> 57 else decimal_tab U c)"

definition str_isdigit :: "ucd \<Rightarrow> pystr \<Rightarrow> bool" where
  \<comment> \<open>\<open>s.isdigit()\<close>: at least one character, and every character a digit\<close>
  "str_isdigit U s = (s \<noteq> [] \<and> list_all (isdigit U) s)"

definition ucd_ok :: "ucd \<Rightarrow> bool" where
  \<comment> \<open>letters (category L) are neither digits (categories Nd, No) nor white space, and
      every decimal digit is a digit\<close>
  "ucd_ok U = ((\<forall>c. alpha_tab U c \<longrightarrow> \<not> digit_tab U c \<and> \<not> isspace c)
               \<and> (\<forall>c. decimal_tab U c \<longrightarrow> digit_tab U c))"

definition latin1_ucd :: ucd where
  \<comment> \<open>the tables up to U+00FF, empty above\<close>
  "latin1_ucd = \<lparr>
     alpha_tab = (\<lambda>c. c = 170 \<or> c = 181 \<or> c = 186 \<or> (192 \<le> c \<and> c \<le> 214)
                      \<or> (216 \<le> c \<and> c \<le> 246) \<or> (248 \<le> c \<and> c \<le> 255)),
     digit_tab = (\<lambda>c. c = 178 \<or> c = 179 \<or> c = 185),
     decimal_tab = (\<lambda>c. False) \<rparr>"

definition dingbat_ucd :: ucd where
  \<comment> \<open>the tables up to U+00FF, the Arabic-Indic decimal digits U+0660..U+0669, and the
      dingbat circled digits U+2776..U+277E, U+2780..U+2788, U+278A..U+2792, which are
      digits but not decimal digits\<close>
  "dingbat_ucd = \<lparr>
     alpha_tab = (\<lambda>c. c = 170 \<or> c = 181 \<or> c = 186 \<or> (192 \<le> c \<and> c \<le> 214)
                      \<or> (216 \<le> c \<and> c \<le> 246) \<or> (248 \<le> c \<and> c \<le> 255)),
     digit_tab = (\<lambda>c. c = 178 \<or> c = 179 \<or> c = 185 \<or> (1632 \<le> c \<and> c \<le> 1641)
                      \<or> (10102 \<le> c \<and> c \<le> 10110) \<or> (10112 \<le> c \<and> c \<le> 10120)
                      \<or> (10122 \<le> c \<and> c \<le> 10130)),
     decimal_tab = (\<lambda>c. 1632 \<le> c \<and> c \<le> 1641) \<rparr>"

section \<open>Text classifier and normalizer\<close>

definition in_emoji :: "codepoint \<Rightarrow> bool" where
  \<comment> \<open>the character class of \<open>EMOJI_RE\<close>: U+1F300..U+1FAFF and U+2600..U+27BF\<close>
  "in_emoji c = ((127744 \<le> c \<and> c \<le> 129791) \<or> (9728 \<le> c \<and> c \<le> 10175))"

definition is_humanish :: "ucd \<Rightarrow> pystr \<Rightarrow> bool" where
  "is_humanish U s0 =
     (if s0 = [] then False
      else let s = strip s0
           in if s = [] then False
              else if str_isdigit U s then False
              else if list_ex (isalpha U) s then True
              else if list_ex in_emoji s then True
              else False)"

definition clean_text :: "pystr \<Rightarrow> pystr" where
  "clean_text s0 =
     (if s0 = [] then []
      else let s1 = replace_char 13 10 s0;
               s2 = join [10] (map strip (splitlines s1))
           in if startswith s2 (py ''@NSAttributedString'') then []
              else if contains s2 (py ''NSAttributedString'') \<and> startswith s2 (py ''<'')
                      \<and> endswith s2 (py ''>'') then []
              else strip s2)"

section \<open>Rich-object string extractor\<close>

text \<open>
  The decoded object graph, by the answers of the \<open>isKindOfClass_\<close> tests of the source:
  an attributed string (with its \<open>string()\<close>), a string, a dictionary (its values in
  \<open>allKeys()\<close> order, the keys serving only to fetch them), an array, \<open>None\<close>, and
  any other object (number, date, data, url, uuid, or one whose type test fails).
\<close>

datatype node =
    Null
  | RichText pystr
  | PlainString pystr
  | Mapping "node list"
  | Sequence "node list"
  | Other

fun first_string_from :: "ucd \<Rightarrow> node \<Rightarrow> pystr"
  and first_humanish :: "ucd \<Rightarrow> node list \<Rightarrow> pystr" where
  "first_string_from U Null = []"
| "first_string_from U (RichText s) = s"
| "first_string_from U (PlainString s) = s"
| "first_string_from U (Mapping vs) = first_humanish U vs"
| "first_string_from U (Sequence vs) = first_humanish U vs"
| "first_string_from U Other = []"
| "first_humanish U [] = []"
| "first_humanish U (v # vs) =
     (let s = first_string_from U v
      in if is_humanish U s then s else first_humanish U vs)"

definition update_best :: "ucd \<Rightarrow> pystr \<Rightarrow> pystr \<Rightarrow> pystr" where
  \<comment> \<open>\<open>if is_humanish(s) and len(s) > len(best): best = s\<close>\<close>
  "update_best U best s = (if is_humanish U s \<and> length s > length best then s else best)"

fun walk :: "ucd \<Rightarrow> node \<Rightarrow> pystr \<Rightarrow> pystr"
  and walk_each :: "ucd \<Rightarrow> node list \<Rightarrow> pystr \<Rightarrow> pystr" where
  \<comment> \<open>the closure \<open>walk\<close>; its nonlocal \<open>best\<close> is passed in and returned\<close>
  "walk U obj best =
     (let best1 = update_best U best (first_string_from U obj)
      in case obj of
           Mapping vs \<Rightarrow> walk_each U vs best1
         | Sequence vs \<Rightarrow> walk_each U vs best1
         | _ \<Rightarrow> best1)"
| "walk_each U [] best = best"
| "walk_each U (v # vs) best = walk_each U vs (walk U v best)"

definition best_string_from :: "ucd \<Rightarrow> node \<Rightarrow> pystr" where
  "best_string_from U obj = clean_text (walk U obj [])"

fun nodes :: "node \<Rightarrow> node list"
  and nodes_each :: "node list \<Rightarrow> node list" where
  \<comment> \<open>the nodes of the graph in depth-first order, a container before its members\<close>
  "nodes (Mapping vs) = Mapping vs # nodes_each vs"
| "nodes (Sequence vs) = Sequence vs # nodes_each vs"
| "nodes Null = [Null]"
| "nodes (RichText s) = [RichText s]"
| "nodes (PlainString s) = [PlainString s]"
| "nodes Other = [Other]"
| "nodes_each [] = []"
| "nodes_each (v # vs) = nodes v @ nodes_each vs"

definition candidates :: "ucd \<Rightarrow> node \<Rightarrow> pystr list" where
  \<comment> \<open>the first-string candidates of all nodes that pass the classifier, in visiting order\<close>
  "candidates U obj = filter (is_humanish U) (map (first_string_from U) (nodes obj))"


section \<open>Binary decoders\<close>

text \<open>
  The keyed-archive and property-list parsers, the UTF-8 codec and \<open>time.strftime\<close> are
  library code; the model takes them as parameters. An unarchiver call either raises, or
  returns the pair \<open>(obj, err)\<close> with an error set, with no object, or with an object.
\<close>

datatype unarchived = Raised | Failed | NoObject | Obj node

datatype plist =
    PStr pystr
  | PBytes blob
  | PDict "(pystr \<times> plist) list"
  | PList "plist list"
  | POther

record decoders =
  unarchive_secure :: "blob \<Rightarrow> unarchived"
  unarchive_legacy :: "blob \<Rightarrow> unarchived"
  plist_loads :: "blob \<Rightarrow> plist option"
  utf8_ignore :: "blob \<Rightarrow> pystr"
  strftime_utc :: "int \<Rightarrow> pystr"

datatype attempt = Secure | Legacy

definition decode_attr_run :: "ucd \<Rightarrow> decoders \<Rightarrow> blob option \<Rightarrow> attempt list \<times> pystr" where
  \<comment> \<open>\<open>decode_attr\<close> with the unarchiver calls it makes, in order, and its return value\<close>
  "decode_attr_run U D b =
     (case b of
        None \<Rightarrow> ([], [])
      | Some bytes \<Rightarrow>
          if bytes = [] then ([], [])
          else (case unarchive_secure D bytes of
                  Obj obj \<Rightarrow>
                    (let s = best_string_from U obj
                     in ([Secure], if is_humanish U s then s else []))
                | _ \<Rightarrow>
                    (case unarchive_legacy D bytes of
                       Obj obj \<Rightarrow>
                         (let s = best_string_from U obj
                          in ([Secure, Legacy], if is_humanish U s then s else []))
                     | _ \<Rightarrow> ([Secure, Legacy], []))))"

definition decode_attr :: "ucd \<Rightarrow> decoders \<Rightarrow> blob option \<Rightarrow> pystr" where
  "decode_attr U D b = snd (decode_attr_run U D b)"

fun pull :: "ucd \<Rightarrow> decoders \<Rightarrow> plist \<Rightarrow> pystr"
  and pull_values :: "ucd \<Rightarrow> decoders \<Rightarrow> (pystr \<times> plist) list \<Rightarrow> pystr"
  and pull_items :: "ucd \<Rightarrow> decoders \<Rightarrow> plist list \<Rightarrow> pystr" where
  "pull U D (PStr x) = (let x1 = clean_text x in if is_humanish U x1 then x1 else [])"
| "pull U D (PBytes x) =
     (let s = clean_text (utf8_ignore D x) in if is_humanish U s then s else [])"
| "pull U D (PDict kvs) = pull_values U D kvs"
| "pull U D (PList vs) = pull_items U D vs"
| "pull U D POther = []"
| "pull_values U D [] = []"
| "pull_values U D ((k, v) # kvs) =
     (let s = pull U D v in if s \<noteq> [] then s else pull_values U D kvs)"
| "pull_items U D [] = []"
| "pull_items U D (v # vs) =
     (let s = pull U D v in if s \<noteq> [] then s else pull_items U D vs)"

definition decode_summary :: "ucd \<Rightarrow> decoders \<Rightarrow> blob option \<Rightarrow> pystr" where
  "decode_summary U D b =
     (case b of
        None \<Rightarrow> []
      | Some bytes \<Rightarrow>
          if bytes = [] then []
          else (case plist_loads D bytes of
                  None \<Rightarrow> []
                | Some obj \<Rightarrow> (let s = pull U D obj in if is_humanish U s then s else [])))"

section \<open>Row resolver\<close>

definition sql_div :: "int \<Rightarrow> int \<Rightarrow> int" where
  \<comment> \<open>integer division of the store's query language: the quotient is truncated\<close>
  "sql_div a b = sgn a * sgn b * (\<bar>a\<bar> div \<bar>b\<bar>)"

definition sql_ts_unix :: "int option \<Rightarrow> int option" where
  \<comment> \<open>the \<open>CASE\<close> expression of the query that computes \<open>ts_unix\<close> from \<open>m.date\<close>\<close>
  "sql_ts_unix date =
     (case date of
        None \<Rightarrow> None
      | Some v \<Rightarrow>
          if v > 1000000000000 then Some (sql_div v 1000000000 + 978307200)
          else if v > 0 then Some (v + 978307200)
          else None)"

record row =
  chat_guid :: "pystr option"
  chat_name :: "pystr option"
  sender_or_chat_id :: "pystr option"
  from_me :: "int option"
  ts_unix :: "int option"
  text_plain :: "pystr option"
  attr_blob :: "blob option"
  summary_blob :: "blob option"
  assoc_guid :: "pystr option"
  assoc_type :: "int option"
  has_attach :: "int option"

record csv_row =
  out_chat_guid :: pystr
  out_chat_name :: pystr
  out_sender_or_chat_id :: pystr
  role :: pystr
  out_from_me :: "int option"
  timestamp_utc :: pystr
  text_full :: pystr
  source :: pystr

definition or_empty :: "pystr option \<Rightarrow> pystr" where
  \<comment> \<open>\<open>x or ""\<close>\<close>
  "or_empty x = (case x of None \<Rightarrow> [] | Some s \<Rightarrow> s)"

definition format_ts :: "decoders \<Rightarrow> int option \<Rightarrow> pystr" where
  \<comment> \<open>\<open>strftime(..., gmtime(int(ts_unix))) if ts_unix else ""\<close>\<close>
  "format_ts D t = (case t of None \<Rightarrow> [] | Some n \<Rightarrow> if n = 0 then [] else strftime_utc D n)"

definition resolve :: "ucd \<Rightarrow> decoders \<Rightarrow> row \<Rightarrow> csv_row option" where
  \<comment> \<open>the body of the loop over the rows: \<open>None\<close> is \<open>continue\<close>, \<open>Some\<close> the row written\<close>
  "resolve U D r =
     (if or_empty (assoc_guid r) \<noteq> [] then None
      else
        let txt0 = clean_text (or_empty (text_plain r));
            source0 = (if is_humanish U txt0 then py ''text'' else []);
            t2 = decode_attr U D (attr_blob r);
            (txt1, source1) =
              (if source0 = [] \<and> t2 \<noteq> [] then (t2, py ''attributedBody'')
               else (txt0, source0));
            t3 = decode_summary U D (summary_blob r);
            (txt2, source2) =
              (if source1 = [] \<and> t3 \<noteq> [] then (t3, py ''message_summary_info'')
               else (txt1, source1))
        in if \<not> is_humanish U txt2 then None
           else Some \<lparr>
             out_chat_guid = or_empty (chat_guid r),
             out_chat_name = or_empty (chat_name r),
             out_sender_or_chat_id = or_empty (sender_or_chat_id r),
             role = (if from_me r = Some 1 then py ''me'' else py ''other''),
             out_from_me = from_me r,
             timestamp_utc = format_ts D (ts_unix r),
             text_full = txt2,
             source = source2 \<rparr>)"

section \<open>Stand-ins for running the model on examples\<close>

definition demo_decoders :: decoders where
  \<comment> \<open>a library that knows four blobs; \<open>[2]\<close> needs the legacy unarchiver to yield text\<close>
  "demo_decoders = \<lparr>
     unarchive_secure = (\<lambda>b.
        if b = [1] then Obj (Sequence [PlainString (py ''42''), PlainString (py ''ok thanks'')])
        else if b = [2] then Obj (PlainString (py ''12''))
        else if b = [3] then Failed
        else Raised),
     unarchive_legacy = (\<lambda>b.
        if b = [2] \<or> b = [3] then Obj (PlainString (py ''Hello'')) else Raised),
     plist_loads = (\<lambda>b.
        if b = [4] then Some (PDict [(py ''caption'', PStr (py ''See this link''))]) else None),
     utf8_ignore = (\<lambda>b. map unat (filter (\<lambda>x. x < 128) b)),
     strftime_utc = (\<lambda>n. []) \<rparr>"

definition demo_row :: row where
  \<comment> \<open>a row whose columns are all \<open>NULL\<close>\<close>
  "demo_row = \<lparr> chat_guid = None, chat_name = None, sender_or_chat_id = None,
     from_me = None, ts_unix = None, text_plain = None, attr_blob = None,
     summary_blob = None, assoc_guid = None, assoc_type = None, has_attach = None \<rparr>"

section \<open>Notions used to state and prove the properties\<close>

definition stripped :: "pystr \<Rightarrow> bool" where
  \<comment> \<open>no white space at either end\<close>
  "stripped s = (s = [] \<or> (\<not> isspace (hd s) \<and> \<not> isspace (last s)))"

definition trim_empty :: "pystr list \<Rightarrow> pystr list" where
  "trim_empty ls = rev (dropWhile (\<lambda>l. l = []) (rev (dropWhile (\<lambda>l. l = []) ls)))"

definition plain_line :: "pystr \<Rightarrow> bool" where
  "plain_line l = (stripped l \<and> list_all (\<lambda>c. \<not> is_linebreak c) l)"

definition line_block :: "pystr list \<Rightarrow> bool" where
  "line_block ls = (list_all plain_line ls \<and> (ls = [] \<or> (hd ls \<noteq> [] \<and> last ls \<noteq> [])))"

definition object_dump :: "pystr \<Rightarrow> bool" where
  \<comment> \<open>the two artifact tests of \<open>clean_text\<close>\<close>
  "object_dump s = (startswith s (py ''@NSAttributedString'') \<or>
     (contains s (py ''NSAttributedString'') \<and> startswith s (py ''<'') \<and> endswith s (py ''>'')))"

section \<open>Properties of the normalizer\<close>

lemma linebreak_isspace: "is_linebreak c \<Longrightarrow> isspace c"
  by (auto simp: is_linebreak_def isspace_def)

lemma dropWhile_fix: "xs = [] \<or> \<not> P (hd xs) \<Longrightarrow> dropWhile P xs = xs"
  by (cases xs) auto

lemma hd_dropWhile_not: "dropWhile P xs \<noteq> [] \<Longrightarrow> \<not> P (hd (dropWhile P xs))"
  using hd_dropWhile by blast

lemma last_dropWhile: "dropWhile P xs \<noteq> [] \<Longrightarrow> last (dropWhile P xs) = last xs"
  by (induction xs) (auto split: if_splits)

lemma strip_stripped: "stripped (strip s)"
proof (cases "strip s = []")
  case True
  then show ?thesis by (simp add: stripped_def)
next
  case False
  let ?t = "dropWhile isspace s"
  let ?u = "dropWhile isspace (rev ?t)"
  from False have u: "?u \<noteq> []" by (simp add: strip_def)
  have t: "?t \<noteq> []"
  proof
    assume e: "?t = []"
    have "?u = []" unfolding e by simp
    with u show False ..
  qed
  have "\<not> isspace (hd ?u)" using u by (rule hd_dropWhile_not)
  then have l: "\<not> isspace (last (strip s))" using u by (simp add: strip_def last_rev)
  have "last ?u = last (rev ?t)" using u by (rule last_dropWhile)
  then have "hd (strip s) = hd ?t" using u t by (simp add: strip_def hd_rev last_rev)
  moreover have "\<not> isspace (hd ?t)" using t by (rule hd_dropWhile_not)
  ultimately show ?thesis using l by (simp add: stripped_def)
qed

lemma stripped_strip: "stripped s \<Longrightarrow> strip s = s"
proof (cases "s = []")
  case True
  then show ?thesis by (simp add: strip_def)
next
  case False
  assume "stripped s"
  with False have h: "\<not> isspace (hd s)" and l: "\<not> isspace (last s)"
    by (auto simp: stripped_def)
  from False h have "dropWhile isspace s = s" by (simp add: dropWhile_fix)
  moreover from False l have "dropWhile isspace (rev s) = rev s"
    by (simp add: dropWhile_fix hd_rev)
  ultimately show ?thesis by (simp add: strip_def)
qed

lemma strip_idem: "strip (strip s) = strip s"
  by (rule stripped_strip [OF strip_stripped])

lemma set_strip: "set (strip s) \<subseteq> set s"
proof -
  have "set (strip s) = set (dropWhile isspace (rev (dropWhile isspace s)))"
    by (simp add: strip_def)
  also have "\<dots> \<subseteq> set (rev (dropWhile isspace s))" by (rule set_dropWhileD [THEN subsetI]) 
  also have "\<dots> \<subseteq> set s" using set_dropWhileD by fastforce
  finally show ?thesis .
qed

lemma splitlines_all_plain:
  "list_all (list_all (\<lambda>c. \<not> is_linebreak c)) (splitlines s)"
  by (induction s rule: splitlines.induct) (auto split: list.splits)

lemma splitlines_no_linebreak:
  "l \<in> set (splitlines s) \<Longrightarrow> c \<in> set l \<Longrightarrow> \<not> is_linebreak c"
  using splitlines_all_plain [of s] by (auto simp: list_all_iff)

lemma plain_line_strip:
  assumes "l \<in> set (splitlines s)"
  shows "plain_line (strip l)"
proof -
  have "\<forall>c\<in>set (strip l). \<not> is_linebreak c"
    using assms splitlines_no_linebreak set_strip by blast
  then show ?thesis by (simp add: plain_line_def strip_stripped list_all_iff)
qed


lemma join_Cons: "join sep (x # xs) = (if xs = [] then x else x @ sep @ join sep xs)"
  by (cases xs) simp_all

lemma join_snoc: "join sep (xs @ [x]) = (if xs = [] then x else join sep xs @ sep @ x)"
  by (induction xs) (auto simp: join_Cons)

lemma rev_join: "rev (join sep ls) = join (rev sep) (rev (map rev ls))"
  by (induction ls) (auto simp: join_Cons join_snoc)

lemma set_join: "set (join sep ls) \<subseteq> set sep \<union> \<Union> (set ` set ls)"
  by (induction ls) (auto simp: join_Cons split: if_splits)

lemma lstrip_join:
  "list_all stripped ls \<Longrightarrow>
     dropWhile isspace (join [10] ls) = join [10] (dropWhile (\<lambda>l. l = []) ls)"
proof (induction ls)
  case Nil
  then show ?case by simp
next
  case (Cons x xs)
  show ?case
  proof (cases "x = []")
    case True
    with Cons show ?thesis by (simp add: join_Cons isspace_def)
  next
    case False
    with Cons.prems have "\<not> isspace (hd x)" by (simp add: stripped_def)
    with False have "dropWhile isspace (x @ t) = x @ t" for t
      by (cases x) simp_all
    from this [of "[]"] this [of "10 # join [10] xs"] False show ?thesis
      by (simp add: join_Cons)
  qed
qed

lemma stripped_rev: "stripped (rev l) = stripped l"
  by (auto simp: stripped_def hd_rev last_rev)

lemma dropWhile_empty_map_rev:
  "dropWhile (\<lambda>l. l = []) (map rev ls) = map rev (dropWhile (\<lambda>l. l = []) ls)"
  by (induction ls) auto

lemma strip_join:
  assumes "list_all stripped ls"
  shows "strip (join [10] ls) = join [10] (trim_empty ls)"
proof -
  let ?E = "\<lambda>l::pystr. l = []"
  let ?ls1 = "dropWhile ?E ls"
  have s1: "list_all stripped ?ls1"
    using assms set_dropWhileD by (fastforce simp: list_all_iff)
  then have s2: "list_all stripped (rev (map rev ?ls1))"
    by (simp add: list_all_iff stripped_rev)
  have "strip (join [10] ls) = rev (dropWhile isspace (rev (join [10] ?ls1)))"
    by (simp add: strip_def lstrip_join [OF assms])
  also have "\<dots> = rev (dropWhile isspace (join [10] (rev (map rev ?ls1))))"
    by (simp add: rev_join)
  also have "\<dots> = rev (join [10] (dropWhile ?E (rev (map rev ?ls1))))"
    by (simp only: lstrip_join [OF s2])
  also have "\<dots> = rev (join [10] (map rev (dropWhile ?E (rev ?ls1))))"
    by (simp only: rev_map dropWhile_empty_map_rev)
  also have "\<dots> = join [10] (trim_empty ls)"
    by (simp add: rev_join trim_empty_def rev_map [symmetric] comp_def)
  finally show ?thesis .
qed

lemma trim_empty_ends:
  "trim_empty ls = [] \<or> (hd (trim_empty ls) \<noteq> [] \<and> last (trim_empty ls) \<noteq> [])"
proof (cases "trim_empty ls = []")
  case True
  then show ?thesis by simp
next
  case False
  let ?E = "\<lambda>l::pystr. l = []"
  let ?t = "dropWhile ?E ls"
  let ?u = "dropWhile ?E (rev ?t)"
  from False have u: "?u \<noteq> []" by (simp add: trim_empty_def)
  have t: "?t \<noteq> []"
  proof
    assume e: "?t = []"
    have "?u = []" unfolding e by simp
    with u show False ..
  qed
  have "\<not> ?E (hd ?u)" using u by (rule hd_dropWhile_not)
  then have l: "last (trim_empty ls) \<noteq> []" using u by (simp add: trim_empty_def last_rev)
  have "last ?u = last (rev ?t)" using u by (rule last_dropWhile)
  then have "hd (trim_empty ls) = hd ?t" using u t by (simp add: trim_empty_def hd_rev last_rev)
  moreover have "\<not> ?E (hd ?t)" using t by (rule hd_dropWhile_not)
  ultimately show ?thesis using l by simp
qed

lemma set_trim_empty: "set (trim_empty ls) \<subseteq> set ls"
proof -
  have "set (trim_empty ls) \<subseteq> set (dropWhile (\<lambda>l. l = []) ls)"
    unfolding trim_empty_def using set_dropWhileD by fastforce
  also have "\<dots> \<subseteq> set ls" using set_dropWhileD by fastforce
  finally show ?thesis .
qed

lemma splitlines_line_nl:
  "list_all (\<lambda>c. \<not> is_linebreak c) x \<Longrightarrow> splitlines (x @ 10 # t) = x # splitlines t"
  by (induction x) (auto simp: is_linebreak_def)

lemma splitlines_line:
  "list_all (\<lambda>c. \<not> is_linebreak c) x \<Longrightarrow> x \<noteq> [] \<Longrightarrow> splitlines x = [x]"
proof (induction x)
  case Nil
  then show ?case by simp
next
  case (Cons c cs)
  then have c: "\<not> is_linebreak c" by simp
  then have "c \<noteq> 13" by (auto simp: is_linebreak_def)
  show ?case
  proof (cases "cs = []")
    case True
    with c \<open>c \<noteq> 13\<close> show ?thesis by simp
  next
    case False
    with Cons have "splitlines cs = [cs]" by simp
    with c \<open>c \<noteq> 13\<close> show ?thesis by simp
  qed
qed

lemma splitlines_join:
  "list_all (list_all (\<lambda>c. \<not> is_linebreak c)) ls \<Longrightarrow> ls = [] \<or> last ls \<noteq> [] \<Longrightarrow>
     splitlines (join [10] ls) = ls"
proof (induction ls)
  case Nil
  then show ?case by simp
next
  case (Cons x xs)
  show ?case
  proof (cases "xs = []")
    case True
    with Cons.prems show ?thesis by (simp add: splitlines_line)
  next
    case False
    with Cons have "splitlines (join [10] xs) = xs" by simp
    with False Cons.prems show ?thesis by (simp add: join_Cons splitlines_line_nl)
  qed
qed


lemma trim_empty_fix: "ls = [] \<or> (hd ls \<noteq> [] \<and> last ls \<noteq> []) \<Longrightarrow> trim_empty ls = ls"
  by (cases "ls = []") (simp_all add: trim_empty_def dropWhile_fix hd_rev)

lemma clean_text_cases:
  "clean_text s = [] \<or>
   clean_text s = strip (join [10] (map strip (splitlines (replace_char 13 10 s))))"
  by (simp add: clean_text_def Let_def)

lemma clean_text_shape: "\<exists>ls. line_block ls \<and> clean_text s = join [10] ls"
proof -
  let ?L = "map strip (splitlines (replace_char 13 10 s))"
  have pl: "list_all plain_line ?L"
    by (simp add: list_all_iff plain_line_strip)
  then have st: "list_all stripped ?L"
    by (simp add: list_all_iff plain_line_def)
  have "list_all plain_line (trim_empty ?L)"
    using pl set_trim_empty [of ?L] by (auto simp: list_all_iff)
  then have lb: "line_block (trim_empty ?L)"
    using trim_empty_ends [of ?L] by (simp add: line_block_def)
  from clean_text_cases [of s] show ?thesis
  proof
    assume "clean_text s = []"
    then have "line_block [] \<and> clean_text s = join [10] []"
      by (simp add: line_block_def)
    then show ?thesis ..
  next
    assume "clean_text s = strip (join [10] ?L)"
    then have "clean_text s = join [10] (trim_empty ?L)"
      by (simp only: strip_join [OF st])
    with lb show ?thesis by blast
  qed
qed

lemma line_block_no_linebreak:
  assumes "line_block ls" "c \<in> set (join [10] ls)" "c \<noteq> 10"
  shows "\<not> is_linebreak c"
proof -
  from assms(2,3) set_join [of "[10]" ls] obtain l where "l \<in> set ls" "c \<in> set l"
    by auto
  with assms(1) show ?thesis
    by (auto simp: line_block_def plain_line_def list_all_iff)
qed

lemma line_block_no_cr: "line_block ls \<Longrightarrow> 13 \<notin> set (join [10] ls)"
  using line_block_no_linebreak [of ls 13] by (auto simp: is_linebreak_def)

lemma replace_char_absent: "a \<notin> set s \<Longrightarrow> replace_char a b s = s"
  by (induction s) (auto simp: replace_char_def)

lemma line_block_relines:
  assumes "line_block ls"
  shows "map strip (splitlines (replace_char 13 10 (join [10] ls))) = ls"
proof -
  have "replace_char 13 10 (join [10] ls) = join [10] ls"
    by (rule replace_char_absent [OF line_block_no_cr [OF assms]])
  moreover have "splitlines (join [10] ls) = ls"
    using assms by (intro splitlines_join) (auto simp: line_block_def plain_line_def list_all_iff)
  moreover have "map strip ls = ls"
    using assms by (auto simp: line_block_def plain_line_def list_all_iff stripped_strip intro: map_idI)
  ultimately show ?thesis by simp
qed

lemma line_block_strip:
  assumes "line_block ls"
  shows "strip (join [10] ls) = join [10] ls"
proof -
  have "list_all stripped ls"
    using assms by (auto simp: line_block_def plain_line_def list_all_iff)
  then have "strip (join [10] ls) = join [10] (trim_empty ls)" by (rule strip_join)
  also have "trim_empty ls = ls"
    using assms by (intro trim_empty_fix) (simp add: line_block_def)
  finally show ?thesis .
qed

lemma clean_text_line_block:
  assumes "line_block ls"
  shows "clean_text (join [10] ls) = (if object_dump (join [10] ls) then [] else join [10] ls)"
proof (cases "join [10] ls = []")
  case True
  then show ?thesis by (simp add: clean_text_def)
next
  case False
  then show ?thesis
    by (simp add: clean_text_def Let_def line_block_relines [OF assms]
        line_block_strip [OF assms] object_dump_def)
qed

lemma clean_text_again:
  "clean_text (clean_text s) = (if object_dump (clean_text s) then [] else clean_text s)"
proof -
  from clean_text_shape [of s] obtain ls where "line_block ls" "clean_text s = join [10] ls"
    by blast
  then show ?thesis by (simp add: clean_text_line_block)
qed

lemma splitlines_prefix:
  "list_all (\<lambda>c. \<not> is_linebreak c) p \<Longrightarrow> p \<noteq> [] \<Longrightarrow>
     \<exists>l ls. splitlines (p @ t) = (p @ l) # ls"
proof (induction p)
  case Nil
  then show ?case by simp
next
  case (Cons c cs)
  then have c: "\<not> is_linebreak c" by simp
  then have c13: "c \<noteq> 13" by (auto simp: is_linebreak_def)
  show ?case
  proof (cases "cs = []")
    case True
    with c c13 show ?thesis by (cases "splitlines t") simp_all
  next
    case False
    with Cons obtain l ls where "splitlines (cs @ t) = (cs @ l) # ls" by auto
    with c c13 show ?thesis by simp
  qed
qed

lemma strip_prefix:
  assumes "p \<noteq> []" "\<not> isspace (hd p)" "\<not> isspace (last p)"
  shows "\<exists>l'. strip (p @ l) = p @ l'"
proof -
  have a: "dropWhile isspace (p @ l) = p @ l"
    using assms(1,2) by (cases p) simp_all
  have b: "dropWhile isspace (rev p) = rev p"
    using assms(1,3) by (simp add: dropWhile_fix hd_rev)
  have c: "strip (p @ l) = rev (dropWhile isspace (rev l @ rev p))"
    by (simp only: strip_def a rev_append)
  show ?thesis
  proof (cases "\<forall>x\<in>set (rev l). isspace x")
    case True
    then have "dropWhile isspace (rev l @ rev p) = rev p"
      by (simp add: dropWhile_append b)
    then have "strip (p @ l) = p @ []" by (simp add: c)
    then show ?thesis ..
  next
    case False
    then obtain x where "x \<in> set (rev l)" "\<not> isspace x" by blast
    then have "dropWhile isspace (rev l @ rev p) = dropWhile isspace (rev l) @ rev p"
      by (rule dropWhile_append1)
    then have "strip (p @ l) = p @ rev (dropWhile isspace (rev l))" by (simp add: c)
    then show ?thesis ..
  qed
qed

lemma replace_char_append:
  "replace_char a b (p @ t) = replace_char a b p @ replace_char a b t"
  by (simp add: replace_char_def)

lemma startswith_append: "startswith (p @ t) p"
  by (simp add: startswith_def)

lemma startswith_split: "startswith s p \<Longrightarrow> s = p @ drop (length p) s"
  by (metis append_take_drop_id startswith_def)

lemma startswith_join:
  assumes "ls \<noteq> []" "startswith (hd ls) p"
  shows "startswith (join sep ls) p"
proof -
  from assms(1) obtain x xs where ls: "ls = x # xs" by (cases ls) auto
  with assms(2) have "x = p @ drop (length p) x" by (simp add: startswith_split)
  then obtain t where x: "x = p @ t" ..
  have "join sep ls = p @ (if xs = [] then t else t @ sep @ join sep xs)"
    by (simp add: ls x join_Cons)
  then show ?thesis by (simp only: startswith_append)
qed

lemma clean_text_prefix_dropped:
  assumes p: "p \<noteq> []" "list_all (\<lambda>c. \<not> isspace c) p"
    and s: "startswith s p"
  shows "startswith (join [10] (map strip (splitlines (replace_char 13 10 s)))) p"
proof -
  from p(2) have nl: "list_all (\<lambda>c. \<not> is_linebreak c) p"
    unfolding list_all_iff using linebreak_isspace by blast
  from p have ends: "\<not> isspace (hd p)" "\<not> isspace (last p)"
    unfolding list_all_iff by simp_all
  have "isspace 13" by (simp add: isspace_def)
  with p(2) have "13 \<notin> set p" unfolding list_all_iff by blast
  then have rp: "replace_char 13 10 p = p" by (rule replace_char_absent)
  obtain d where d: "s = p @ d" using startswith_split [OF s] ..
  have r: "replace_char 13 10 s = p @ replace_char 13 10 d"
    by (simp only: d replace_char_append rp)
  obtain l ls where sl: "splitlines (p @ replace_char 13 10 d) = (p @ l) # ls"
    using splitlines_prefix [OF nl p(1)] by blast
  obtain l' where st: "strip (p @ l) = p @ l'"
    using strip_prefix [OF p(1) ends] by blast
  have "map strip (splitlines (replace_char 13 10 s)) = (p @ l') # map strip ls"
    by (simp only: r sl st list.map)
  moreover have "startswith (join [10] ((p @ l') # map strip ls)) p"
    by (rule startswith_join) (simp_all add: startswith_append)
  ultimately show ?thesis by (simp only:)
qed

lemma marker_codepoints:
  "py ''@NSAttributedString'' =
     [64, 78, 83, 65, 116, 116, 114, 105, 98, 117, 116, 101, 100, 83, 116, 114, 105, 110, 103]"
  by (simp add: py_def)

lemma marker_facts:
  "py ''@NSAttributedString'' \<noteq> []"
  "list_all (\<lambda>c. \<not> isspace c) (py ''@NSAttributedString'')"
  unfolding marker_codepoints by (simp_all add: isspace_def)

lemma clean_text_marker: "startswith s (py ''@NSAttributedString'') \<Longrightarrow> clean_text s = []"
  using clean_text_prefix_dropped [OF marker_facts]
  by (simp add: clean_text_def Let_def)

section \<open>Evaluations of the normalizer\<close>

lemmas str_eval = py_def strip_def isspace_def is_linebreak_def replace_char_def
  startswith_def endswith_def Let_def

lemma clean_text_leading_newline_marker:
  "clean_text (10 # py ''@NSAttributedString'') = py ''@NSAttributedString''"
  by (simp add: clean_text_def str_eval)

lemma clean_text_bare_marker: "clean_text (py ''@NSAttributedString'') = []"
  by (simp add: clean_text_def str_eval)

lemma clean_text_two_lines:
  "clean_text (py '' a'' @ 13 # py ''b  '') = py ''a'' @ 10 # py ''b''"
  by (simp add: clean_text_def str_eval)

lemma two_lines_no_dump: "\<not> object_dump (py ''a'' @ 10 # py ''b'')"
  by (simp add: object_dump_def str_eval)

lemma two_lines_split: "splitlines (py ''a'' @ 10 # py ''b'') = [py ''a'', py ''b'']"
  by (simp add: str_eval)

lemma clean_text_leading_space_marker: "clean_text (32 # py ''@NSAttributedString'') = []"
  by (simp add: clean_text_def str_eval)


section \<open>Properties of the classifier, the decoders and the resolver\<close>

lemma mem_dropWhile: "x \<in> set xs \<Longrightarrow> \<not> P x \<Longrightarrow> x \<in> set (dropWhile P xs)"
  by (induction xs) auto

lemma mem_strip: "c \<in> set s \<Longrightarrow> \<not> isspace c \<Longrightarrow> c \<in> set (strip s)"
  by (simp add: strip_def mem_dropWhile)

lemma strip_empty_iff: "strip s = [] \<longleftrightarrow> list_all isspace s"
proof
  assume "strip s = []"
  then have "\<forall>c\<in>set s. isspace c" using mem_strip [of _ s] by fastforce
  then show "list_all isspace s" by (simp add: list_all_iff)
next
  assume "list_all isspace s"
  then have e: "dropWhile isspace s = []" by (simp add: list_all_iff)
  show "strip s = []" unfolding strip_def e by simp
qed

lemma list_ex_strip:
  assumes "\<And>c. P c \<Longrightarrow> \<not> isspace c"
  shows "list_ex P (strip s) = list_ex P s"
  unfolding list_ex_iff using assms mem_strip [of _ s] set_strip [of s] by blast

lemma emoji_not_space: "in_emoji c \<Longrightarrow> \<not> isspace c"
  unfolding in_emoji_def isspace_def by arith

lemma alpha_not_space: "ucd_ok U \<Longrightarrow> isalpha U c \<Longrightarrow> \<not> isspace c"
proof (cases "c < 128")
  case True
  assume "isalpha U c"
  with True have "(65 \<le> c \<and> c \<le> 90) \<or> (97 \<le> c \<and> c \<le> 122)" by (simp add: isalpha_def)
  then show ?thesis unfolding isspace_def by arith
next
  case False
  assume "ucd_ok U" "isalpha U c"
  with False show ?thesis by (simp add: isalpha_def ucd_ok_def)
qed

lemma alpha_not_digit: "ucd_ok U \<Longrightarrow> isalpha U c \<Longrightarrow> \<not> isdigit U c"
  by (cases "c < 128") (auto simp: isalpha_def isdigit_def ucd_ok_def)

lemma is_humanish_unfold:
  "is_humanish U s = (strip s \<noteq> [] \<and> \<not> str_isdigit U (strip s)
     \<and> (list_ex (isalpha U) (strip s) \<or> list_ex in_emoji (strip s)))"
proof (cases "s = []")
  case True
  then show ?thesis by (simp add: is_humanish_def strip_def)
next
  case False
  then show ?thesis by (auto simp: is_humanish_def Let_def)
qed

lemma is_humanish_nonempty: "is_humanish U s \<Longrightarrow> s \<noteq> []"
  by (auto simp: is_humanish_def)

lemma latin1_ok: "ucd_ok latin1_ucd"
  unfolding ucd_ok_def latin1_ucd_def isspace_def by auto

lemma dingbat_ok: "ucd_ok dingbat_ucd"
  unfolding ucd_ok_def dingbat_ucd_def isspace_def by auto

lemma decimal_is_digit: "ucd_ok U \<Longrightarrow> isdecimal U c \<Longrightarrow> isdigit U c"
  by (cases "c < 128") (auto simp: isdecimal_def isdigit_def ucd_ok_def)


lemma decode_attr_humanish: "decode_attr U D b = [] \<or> is_humanish U (decode_attr U D b)"
  by (simp add: decode_attr_def decode_attr_run_def Let_def split: option.splits unarchived.splits)

lemma decode_summary_humanish:
  "decode_summary U D b = [] \<or> is_humanish U (decode_summary U D b)"
  by (simp add: decode_summary_def Let_def split: option.splits)

lemma resolve_Some:
  assumes "resolve U D r = Some out"
  shows "is_humanish U (text_full out)"
proof -
  from assms have g: "or_empty (assoc_guid r) = []"
    by (simp add: resolve_def split: if_splits)
  show ?thesis
    using assms unfolding resolve_def Let_def
    by (auto simp: g split: if_splits prod.splits)
qed

lemma resolve_None:
  assumes "\<not> is_humanish U (clean_text (or_empty (text_plain r)))"
    and "\<not> is_humanish U (decode_attr U D (attr_blob r))"
    and "\<not> is_humanish U (decode_summary U D (summary_blob r))"
  shows "resolve U D r = None"
proof -
  from assms(2) decode_attr_humanish [of U D "attr_blob r"]
  have a: "decode_attr U D (attr_blob r) = []" by blast
  from assms(3) decode_summary_humanish [of U D "summary_blob r"]
  have b: "decode_summary U D (summary_blob r) = []" by blast
  show ?thesis using assms(1) by (simp add: resolve_def Let_def a b)
qed

lemma resolve_assoc: "assoc_guid r = Some g \<Longrightarrow> g \<noteq> [] \<Longrightarrow> resolve U D r = None"
  by (simp add: resolve_def or_empty_def)

lemma resolve_role:
  assumes "resolve U D r = Some out"
  shows "role out = (if from_me r = Some 1 then py ''me'' else py ''other'')"
proof -
  from assms have g: "or_empty (assoc_guid r) = []"
    by (simp add: resolve_def split: if_splits)
  show ?thesis
    using assms unfolding resolve_def Let_def
    by (auto simp: g split: if_splits prod.splits)
qed

lemma sql_div_pos: "0 < a \<Longrightarrow> 0 < b \<Longrightarrow> sql_div a b = a div b"
  by (simp add: sql_div_def)

lemma hi_humanish: "is_humanish U (py ''Hi'')"
  by (simp add: is_humanish_def py_def strip_def isspace_def str_isdigit_def isdigit_def isalpha_def)

lemma hi_clean: "clean_text (py ''Hi'') = py ''Hi''"
  by (simp add: clean_text_def str_eval)

lemmas demo_eval = demo_decoders_def demo_row_def or_empty_def

lemma py_empty_iff: "py s = [] \<longleftrightarrow> s = []"
  by (simp add: py_def)

lemma length_py: "length (py s) = length s"
  by (simp add: py_def)

lemma twelve_not_humanish: "\<not> is_humanish U (py ''12'')"
  by (simp add: is_humanish_def py_def strip_def isspace_def str_isdigit_def isdigit_def)

lemma hello_humanish: "is_humanish U (py ''Hello'')"
  by (simp add: is_humanish_def py_def strip_def isspace_def str_isdigit_def isdigit_def isalpha_def)

lemma link_humanish: "is_humanish U (py ''See this link'')"
  by (simp add: is_humanish_def py_def strip_def isspace_def str_isdigit_def isdigit_def isalpha_def)

lemma link_clean: "clean_text (py ''See this link'') = py ''See this link''"
  by (simp add: clean_text_def str_eval)

lemma best_plain: "best_string_from U (PlainString s) = clean_text (update_best U [] s)"
  by (simp add: best_string_from_def)

lemma twelve_clean: "clean_text (py ''12'') = py ''12''"
  by (simp add: clean_text_def str_eval)

lemma hello_clean: "clean_text (py ''Hello'') = py ''Hello''"
  by (simp add: clean_text_def str_eval)

lemma best_twelve: "best_string_from U (PlainString (py ''12'')) = []"
  by (simp add: best_plain update_best_def twelve_not_humanish clean_text_def)

lemma best_hello: "best_string_from U (PlainString (py ''Hello'')) = py ''Hello''"
proof -
  have "update_best U [] (py ''Hello'') = py ''Hello''"
    by (simp add: update_best_def hello_humanish length_py)
  then show ?thesis by (simp add: best_plain hello_clean)
qed

lemma run_demo_2: "decode_attr_run U demo_decoders (Some [2]) = ([Secure], [])"
  by (simp add: decode_attr_run_def demo_decoders_def best_twelve Let_def)

lemma run_demo_3: "decode_attr_run U demo_decoders (Some [3]) = ([Secure, Legacy], py ''Hello'')"
  by (simp add: decode_attr_run_def demo_decoders_def best_hello hello_humanish Let_def)

lemma empty_not_humanish: "\<not> is_humanish U []"
  by (simp add: is_humanish_def)

lemma resolve_hi:
  "resolve U demo_decoders (demo_row\<lparr>text_plain := Some (py ''Hi''), from_me := Some f\<rparr>) =
     Some \<lparr> out_chat_guid = [], out_chat_name = [], out_sender_or_chat_id = [],
            role = (if f = 1 then py ''me'' else py ''other''), out_from_me = Some f,
            timestamp_utc = [], text_full = py ''Hi'', source = py ''text'' \<rparr>"
  by (simp add: resolve_def demo_row_def or_empty_def hi_clean hi_humanish format_ts_def
      py_empty_iff Let_def)

lemma resolve_hi_empty_guid:
  "resolve U demo_decoders (demo_row\<lparr>text_plain := Some (py ''Hi''), assoc_guid := Some []\<rparr>) =
     Some \<lparr> out_chat_guid = [], out_chat_name = [], out_sender_or_chat_id = [],
            role = py ''other'', out_from_me = None,
            timestamp_utc = [], text_full = py ''Hi'', source = py ''text'' \<rparr>"
  by (simp add: resolve_def demo_row_def or_empty_def hi_clean hi_humanish format_ts_def
      py_empty_iff Let_def)

lemma resolve_numeric:
  "\<not> is_humanish U (clean_text (or_empty (text_plain (demo_row\<lparr>text_plain := Some (py ''12'')\<rparr>))))"
  "\<not> is_humanish U (decode_attr U demo_decoders (attr_blob (demo_row\<lparr>text_plain := Some (py ''12'')\<rparr>)))"
  "\<not> is_humanish U (decode_summary U demo_decoders (summary_blob (demo_row\<lparr>text_plain := Some (py ''12'')\<rparr>)))"
  by (simp_all add: demo_row_def or_empty_def twelve_clean twelve_not_humanish decode_attr_def
      decode_attr_run_def decode_summary_def empty_not_humanish)

lemma marker_humanish: "is_humanish U (py ''@NSAttributedString'')"
  by (simp add: is_humanish_def py_def strip_def isspace_def str_isdigit_def isdigit_def isalpha_def)


section \<open>Properties of the extractor\<close>

lemma walk_foldl:
  "walk U obj b = foldl (update_best U) b (map (first_string_from U) (nodes obj))"
  "walk_each U vs b = foldl (update_best U) b (map (first_string_from U) (nodes_each vs))"
proof (induction U obj b and U vs b rule: walk_walk_each.induct)
  case (1 U obj best)
  then show ?case by (cases obj) (simp_all add: Let_def)
next
  case (2 U best)
  then show ?case by simp
next
  case (3 U v vs best)
  then show ?case by simp
qed

lemma foldl_update_best:
  "(foldl (update_best U) b cs = b \<and> (\<forall>c\<in>set (filter (is_humanish U) cs). length c \<le> length b))
   \<or> (\<exists>pre post. filter (is_humanish U) cs = pre @ foldl (update_best U) b cs # post
        \<and> length b < length (foldl (update_best U) b cs)
        \<and> (\<forall>c\<in>set pre. length c < length (foldl (update_best U) b cs))
        \<and> (\<forall>c\<in>set post. length c \<le> length (foldl (update_best U) b cs)))"
proof (induction cs arbitrary: b)
  case Nil
  then show ?case by simp
next
  case (Cons c cs)
  let ?b = "update_best U b c"
  let ?r = "foldl (update_best U) ?b cs"
  let ?hs = "filter (is_humanish U) cs"
  have r: "foldl (update_best U) b (c # cs) = ?r" by simp
  from Cons.IH [of ?b] consider
    (same) "?r = ?b" "\<forall>x\<in>set ?hs. length x \<le> length ?b"
    | (later) pre post where "?hs = pre @ ?r # post" "length ?b < length ?r"
        "\<forall>x\<in>set pre. length x < length ?r" "\<forall>x\<in>set post. length x \<le> length ?r"
    by blast
  then show ?case
  proof cases
    case same
    show ?thesis
    proof (cases "is_humanish U c \<and> length b < length c")
      case True
      then have b: "?b = c" by (simp add: update_best_def)
      with same True have "filter (is_humanish U) (c # cs) = [] @ ?r # ?hs"
        "length b < length ?r" "\<forall>x\<in>set ?hs. length x \<le> length ?r"
        by simp_all
      then show ?thesis unfolding r by (metis empty_iff list.set(1))
    next
      case False
      then have b: "?b = b" by (auto simp: update_best_def)
      with same False have "?r = b" "\<forall>x\<in>set (filter (is_humanish U) (c # cs)). length x \<le> length b"
        by auto
      then show ?thesis unfolding r by blast
    qed
  next
    case later
    show ?thesis
    proof (cases "is_humanish U c")
      case True
      have lb: "length b \<le> length ?b" by (simp add: update_best_def)
      have lc: "length c \<le> length ?b" using True by (simp add: update_best_def)
      from True later(1) have "filter (is_humanish U) (c # cs) = (c # pre) @ ?r # post" by simp
      moreover from lb later(2) have "length b < length ?r" by simp
      moreover from lc later(2,3) have "\<forall>x\<in>set (c # pre). length x < length ?r" by auto
      ultimately show ?thesis unfolding r using later(4) by blast
    next
      case False
      then have b: "?b = b" by (simp add: update_best_def)
      from False later(1) have "filter (is_humanish U) (c # cs) = pre @ ?r # post" by simp
      moreover from b later(2) have "length b < length ?r" by simp
      ultimately show ?thesis unfolding r using later(3,4) by blast
    qed
  qed
qed

lemma walk_longest:
  "(candidates U obj = [] \<and> walk U obj [] = [])
   \<or> (\<exists>pre post. candidates U obj = pre @ walk U obj [] # post
        \<and> (\<forall>c\<in>set pre. length c < length (walk U obj []))
        \<and> (\<forall>c\<in>set post. length c \<le> length (walk U obj [])))"
proof -
  let ?cs = "map (first_string_from U) (nodes obj)"
  have w: "walk U obj [] = foldl (update_best U) [] ?cs" by (rule walk_foldl)
  from foldl_update_best [of U "[]" ?cs] show ?thesis
  proof
    assume a: "foldl (update_best U) [] ?cs = [] \<and>
      (\<forall>c\<in>set (filter (is_humanish U) ?cs). length c \<le> length ([]::pystr))"
    have "filter (is_humanish U) ?cs = []"
    proof (rule ccontr)
      assume "filter (is_humanish U) ?cs \<noteq> []"
      then obtain c where c: "c \<in> set (filter (is_humanish U) ?cs)"
        by (meson last_in_set)
      with a have "c = []" by simp
      moreover from c have "is_humanish U c" by simp
      ultimately show False by (simp add: empty_not_humanish)
    qed
    with a show ?thesis unfolding candidates_def w by blast
  next
    assume "\<exists>pre post. filter (is_humanish U) ?cs = pre @ foldl (update_best U) [] ?cs # post
        \<and> length ([]::pystr) < length (foldl (update_best U) [] ?cs)
        \<and> (\<forall>c\<in>set pre. length c < length (foldl (update_best U) [] ?cs))
        \<and> (\<forall>c\<in>set post. length c \<le> length (foldl (update_best U) [] ?cs))"
    then show ?thesis unfolding candidates_def w by blast
  qed
qed

lemma best_of_two:
  assumes "is_humanish U a" "is_humanish U b" "length a \<noteq> length b"
    and "f = PlainString \<or> f = RichText" "g = PlainString \<or> g = RichText"
  shows "best_string_from U (Sequence [f a, g b])
           = clean_text (if length a < length b then b else a)"
    and "best_string_from U (Mapping [f a, g b])
           = clean_text (if length a < length b then b else a)"
proof -
  from assms(1) have "a \<noteq> []" by (rule is_humanish_nonempty)
  with assms show "best_string_from U (Sequence [f a, g b])
           = clean_text (if length a < length b then b else a)"
    and "best_string_from U (Mapping [f a, g b])
           = clean_text (if length a < length b then b else a)"
    by (auto simp: best_string_from_def update_best_def Let_def)
qed

lemma first_humanish_filter:
  "first_humanish U vs =
     (case filter (is_humanish U) (map (first_string_from U) vs) of [] \<Rightarrow> [] | x # _ \<Rightarrow> x)"
  by (induction vs) (simp_all add: Let_def)

lemma hello_there_humanish: "is_humanish U (py ''Hello there'')"
  by (simp add: is_humanish_def py_def strip_def isspace_def str_isdigit_def isdigit_def isalpha_def)

lemma hello_there_clean: "clean_text (py ''Hello there'') = py ''Hello there''"
  by (simp add: clean_text_def str_eval)

lemma best_siblings:
  "best_string_from U (Sequence [PlainString (py ''12''), PlainString (py ''Hello there'')])
     = py ''Hello there''"
  "best_string_from U (Mapping [PlainString (py ''12''), PlainString (py ''Hello there'')])
     = py ''Hello there''"
  "best_string_from U (Sequence [PlainString (py ''12''), RichText (py ''Hello there'')])
     = py ''Hello there''"
  by (simp_all add: best_string_from_def update_best_def Let_def twelve_not_humanish
      hello_there_humanish hello_there_clean length_py)

lemma ok_thanks_humanish: "is_humanish U (py ''ok thanks'')"
  by (simp add: is_humanish_def py_def strip_def isspace_def str_isdigit_def isdigit_def isalpha_def)

lemma ok_thanks_clean: "clean_text (py ''ok thanks'') = py ''ok thanks''"
  by (simp add: clean_text_def str_eval)

lemma fortytwo_not_humanish: "\<not> is_humanish U (py ''42'')"
  by (simp add: is_humanish_def py_def strip_def isspace_def str_isdigit_def isdigit_def)

lemma candidates_nested:
  "candidates U (Sequence [PlainString (py ''42''), Mapping [RichText (py ''ok thanks''), Other]])
     = [py ''ok thanks'', py ''ok thanks'', py ''ok thanks'']"
  by (simp add: candidates_def Let_def ok_thanks_humanish fortytwo_not_humanish empty_not_humanish)

lemma padded_humanish: "is_humanish U (py ''          a'')"
  by (simp add: is_humanish_def py_def strip_def isspace_def str_isdigit_def isdigit_def isalpha_def)

lemma goodbye_humanish: "is_humanish U (py ''Goodbye'')"
  by (simp add: is_humanish_def py_def strip_def isspace_def str_isdigit_def isdigit_def isalpha_def)

lemma padded_clean: "clean_text (py ''          a'') = py ''a''"
  by (simp add: clean_text_def str_eval)

section \<open>The claims\<close>




text \<open>
  C2: every record the resolver emits has a text field that is non-empty and passes
  \<open>is_humanish\<close>; and a row whose three candidates (normalized plain text, rich-text
  decode, property-list decode) all fail the classifier yields no record.
\<close>

theorem resolve_text_humanish:
  "(resolve U D r = Some out \<longrightarrow> text_full out \<noteq> [] \<and> is_humanish U (text_full out))
   \<and> (\<not> is_humanish U (clean_text (or_empty (text_plain r)))
        \<and> \<not> is_humanish U (decode_attr U D (attr_blob r))
        \<and> \<not> is_humanish U (decode_summary U D (summary_blob r))
      \<longrightarrow> resolve U D r = None)"
  using resolve_Some [of U D r out] resolve_None [of U r D] is_humanish_nonempty [of U "text_full out"]
  by blast

theorem resolve_text_humanish_witness:
  "resolve latin1_ucd demo_decoders (demo_row\<lparr>text_plain := Some (py ''Hi''), from_me := Some 1\<rparr>) \<noteq> None
   \<and> map_option text_full
        (resolve latin1_ucd demo_decoders (demo_row\<lparr>text_plain := Some (py ''Hi''), from_me := Some 1\<rparr>))
       = Some (py ''Hi'')
   \<and> is_humanish latin1_ucd (py ''Hi'')
   \<and> resolve latin1_ucd demo_decoders (demo_row\<lparr>text_plain := Some (py ''12'')\<rparr>) = None"
proof -
  let ?r = "demo_row\<lparr>text_plain := Some (py ''Hi''), from_me := Some 1\<rparr>"
  let ?out = "\<lparr> out_chat_guid = [], out_chat_name = [], out_sender_or_chat_id = [],
            role = py ''me'', out_from_me = Some 1,
            timestamp_utc = [], text_full = py ''Hi'', source = py ''text'' \<rparr>"
  have e: "resolve latin1_ucd demo_decoders ?r = Some ?out"
    by (simp add: resolve_hi)
  from resolve_text_humanish [of latin1_ucd demo_decoders ?r ?out] e
  have a: "is_humanish latin1_ucd (py ''Hi'')" by simp
  from resolve_text_humanish [of latin1_ucd demo_decoders "demo_row\<lparr>text_plain := Some (py ''12'')\<rparr>"]
    resolve_numeric [of latin1_ucd]
  have b: "resolve latin1_ucd demo_decoders (demo_row\<lparr>text_plain := Some (py ''12'')\<rparr>) = None"
    by blast
  from e a b show ?thesis by simp
qed

text \<open>
  C3, as stated: of two human-readable strings of different lengths the longer is
  returned. What is returned is the normalized winner: for the siblings \<open>a\<close> padded with
  ten leading spaces (eleven characters) and \<open>Goodbye\<close> (seven), the padded string wins
  on length and the result is \<open>a\<close>, which is neither of the two strings.
\<close>

theorem best_string_from_longer_counterexample:
  "is_humanish latin1_ucd (py ''          a'') \<and> is_humanish latin1_ucd (py ''Goodbye'')
   \<and> length (py ''Goodbye'') < length (py ''          a'')
   \<and> best_string_from latin1_ucd
        (Sequence [PlainString (py ''          a''), PlainString (py ''Goodbye'')]) = py ''a''
   \<and> best_string_from latin1_ucd
        (Sequence [PlainString (py ''          a''), PlainString (py ''Goodbye'')])
       \<noteq> py ''          a''"
proof -
  have l: "length (py ''Goodbye'') < length (py ''          a'')" by (simp add: length_py)
  then have n: "length (py ''          a'') \<noteq> length (py ''Goodbye'')" by simp
  have "best_string_from latin1_ucd
        (Sequence [PlainString (py ''          a''), PlainString (py ''Goodbye'')])
      = clean_text (if length (py ''          a'') < length (py ''Goodbye'')
                    then py ''Goodbye'' else py ''          a'')"
    using padded_humanish goodbye_humanish n by (intro best_of_two) simp_all
  also have "\<dots> = py ''a''" using l by (simp add: padded_clean)
  finally have b: "best_string_from latin1_ucd
        (Sequence [PlainString (py ''          a''), PlainString (py ''Goodbye'')]) = py ''a''" .
  have d: "py ''a'' \<noteq> py ''          a''" by (simp add: py_def)
  from l b d padded_humanish [of latin1_ucd] goodbye_humanish [of latin1_ucd]
  show ?thesis by simp
qed

text \<open>
  C3, amended: \<open>best_string_from\<close> returns \<open>clean_text\<close> of the winner, where the winner
  is the longest of the first-string candidates, taken over all nodes of the graph in
  depth-first order, that pass the classifier, the first one among equally long ones (and
  the empty string when no candidate passes). The first string of an attributed string is
  its plain string, that of a string the string itself, that of a dictionary or an array
  the first first-string of its members that passes the classifier, and that of any other
  node the empty string. Sibling strings \<open>12\<close> and \<open>Hello there\<close> yield \<open>Hello there\<close>;
  of two human-readable sibling strings of different lengths the longer one wins, and what
  is returned is its \<open>clean_text\<close>, which is the longer string itself when
  \<open>clean_text\<close> leaves it unchanged.
\<close>

theorem best_string_from_longest:
  "(\<exists>w. best_string_from U obj = clean_text w \<and>
       (candidates U obj = [] \<and> w = [] \<or>
        (\<exists>pre post. candidates U obj = pre @ w # post
           \<and> (\<forall>c\<in>set pre. length c < length w)
           \<and> (\<forall>c\<in>set post. length c \<le> length w))))
   \<and> first_string_from U (RichText s) = s
   \<and> first_string_from U (PlainString s) = s
   \<and> first_string_from U Null = [] \<and> first_string_from U Other = []
   \<and> first_string_from U (Mapping vs) =
        (case filter (is_humanish U) (map (first_string_from U) vs) of [] \<Rightarrow> [] | x # _ \<Rightarrow> x)
   \<and> first_string_from U (Sequence vs) =
        (case filter (is_humanish U) (map (first_string_from U) vs) of [] \<Rightarrow> [] | x # _ \<Rightarrow> x)
   \<and> best_string_from U (Sequence [PlainString (py ''12''), PlainString (py ''Hello there'')])
        = py ''Hello there''
   \<and> best_string_from U (Mapping [PlainString (py ''12''), PlainString (py ''Hello there'')])
        = py ''Hello there''
   \<and> best_string_from U (Sequence [PlainString (py ''12''), RichText (py ''Hello there'')])
        = py ''Hello there''
   \<and> (is_humanish U a \<and> is_humanish U b \<and> length a \<noteq> length b
        \<and> (f = PlainString \<or> f = RichText) \<and> (g = PlainString \<or> g = RichText) \<longrightarrow>
        best_string_from U (Sequence [f a, g b])
          = clean_text (if length a < length b then b else a)
        \<and> best_string_from U (Mapping [f a, g b])
          = clean_text (if length a < length b then b else a)
        \<and> (clean_text (if length a < length b then b else a)
              = (if length a < length b then b else a) \<longrightarrow>
            best_string_from U (Sequence [f a, g b]) = (if length a < length b then b else a)
            \<and> best_string_from U (Mapping [f a, g b]) = (if length a < length b then b else a)))"
proof -
  have "best_string_from U obj = clean_text (walk U obj [])"
    by (simp only: best_string_from_def)
  with walk_longest [of U obj]
  have g: "\<exists>w. best_string_from U obj = clean_text w \<and>
       (candidates U obj = [] \<and> w = [] \<or>
        (\<exists>pre post. candidates U obj = pre @ w # post
           \<and> (\<forall>c\<in>set pre. length c < length w)
           \<and> (\<forall>c\<in>set post. length c \<le> length w)))"
    by blast
  have fs: "first_string_from U (RichText s) = s" "first_string_from U (PlainString s) = s"
    "first_string_from U Null = []" "first_string_from U Other = []"
    by simp_all
  have fm: "first_string_from U (Mapping vs) =
        (case filter (is_humanish U) (map (first_string_from U) vs) of [] \<Rightarrow> [] | x # _ \<Rightarrow> x)"
    "first_string_from U (Sequence vs) =
        (case filter (is_humanish U) (map (first_string_from U) vs) of [] \<Rightarrow> [] | x # _ \<Rightarrow> x)"
    by (simp_all add: first_humanish_filter)
  have two: "is_humanish U a \<and> is_humanish U b \<and> length a \<noteq> length b
        \<and> (f = PlainString \<or> f = RichText) \<and> (g = PlainString \<or> g = RichText) \<longrightarrow>
        best_string_from U (Sequence [f a, g b])
          = clean_text (if length a < length b then b else a)
        \<and> best_string_from U (Mapping [f a, g b])
          = clean_text (if length a < length b then b else a)"
    using best_of_two [of U a b f g] by blast
  then have two': "is_humanish U a \<and> is_humanish U b \<and> length a \<noteq> length b
        \<and> (f = PlainString \<or> f = RichText) \<and> (g = PlainString \<or> g = RichText) \<longrightarrow>
        best_string_from U (Sequence [f a, g b])
          = clean_text (if length a < length b then b else a)
        \<and> best_string_from U (Mapping [f a, g b])
          = clean_text (if length a < length b then b else a)
        \<and> (clean_text (if length a < length b then b else a)
              = (if length a < length b then b else a) \<longrightarrow>
            best_string_from U (Sequence [f a, g b]) = (if length a < length b then b else a)
            \<and> best_string_from U (Mapping [f a, g b]) = (if length a < length b then b else a))"
    by presburger
  from g fs fm best_siblings [of U] two' show ?thesis by (intro conjI)
qed

theorem best_string_from_longest_witness:
  "candidates latin1_ucd
      (Sequence [PlainString (py ''42''), Mapping [RichText (py ''ok thanks''), Other]])
     = [py ''ok thanks'', py ''ok thanks'', py ''ok thanks'']
   \<and> best_string_from latin1_ucd
      (Sequence [PlainString (py ''42''), Mapping [RichText (py ''ok thanks''), Other]])
     = py ''ok thanks''
   \<and> first_string_from latin1_ucd (RichText (py ''ok thanks'')) = py ''ok thanks''
   \<and> is_humanish latin1_ucd (py ''Hi'') \<and> is_humanish latin1_ucd (py ''Hello'')
   \<and> length (py ''Hi'') \<noteq> length (py ''Hello'')
   \<and> best_string_from latin1_ucd (Sequence [RichText (py ''Hi''), PlainString (py ''Hello'')])
     = py ''Hello''
   \<and> best_string_from latin1_ucd (Mapping [PlainString (py ''Hello''), RichText (py ''Hi'')])
     = py ''Hello''"
proof -
  let ?G = "Sequence [PlainString (py ''42''), Mapping [RichText (py ''ok thanks''), Other]]"
  note c = candidates_nested [of latin1_ucd]
  from best_string_from_longest [of latin1_ucd ?G]
  obtain w where w: "best_string_from latin1_ucd ?G = clean_text w"
    and d: "candidates latin1_ucd ?G = [] \<and> w = [] \<or>
        (\<exists>pre post. candidates latin1_ucd ?G = pre @ w # post
           \<and> (\<forall>c\<in>set pre. length c < length w)
           \<and> (\<forall>c\<in>set post. length c \<le> length w))"
    by blast
  from d c obtain pre post where "[py ''ok thanks'', py ''ok thanks'', py ''ok thanks''] = pre @ w # post"
    by auto
  then have "w \<in> set [py ''ok thanks'', py ''ok thanks'', py ''ok thanks'']"
    by (metis in_set_conv_decomp)
  then have "w = py ''ok thanks''" by simp
  with w have b: "best_string_from latin1_ucd ?G = py ''ok thanks''"
    by (simp add: ok_thanks_clean)
  from best_string_from_longest [of latin1_ucd Other "py ''ok thanks''"]
  have r: "first_string_from latin1_ucd (RichText (py ''ok thanks'')) = py ''ok thanks''"
    by blast
  have h: "is_humanish latin1_ucd (py ''Hi'')" "is_humanish latin1_ucd (py ''Hello'')"
    by (rule hi_humanish, rule hello_humanish)
  have l: "length (py ''Hi'') \<noteq> length (py ''Hello'')" by (simp add: length_py)
  have k: "RichText = PlainString \<or> RichText = RichText"
    "PlainString = PlainString \<or> PlainString = RichText" by simp_all
  from best_string_from_longest [of latin1_ucd Other "[]" "[]" "py ''Hi''" "py ''Hello''"
      RichText PlainString] h l k
  have "best_string_from latin1_ucd (Sequence [RichText (py ''Hi''), PlainString (py ''Hello'')])
     = clean_text (if length (py ''Hi'') < length (py ''Hello'') then py ''Hello'' else py ''Hi'')"
    by blast
  then have e: "best_string_from latin1_ucd (Sequence [RichText (py ''Hi''), PlainString (py ''Hello'')])
     = py ''Hello''"
    by (simp add: length_py hello_clean)
  have l2: "length (py ''Hello'') \<noteq> length (py ''Hi'')" by (simp add: length_py)
  from best_string_from_longest [of latin1_ucd Other "[]" "[]" "py ''Hello''" "py ''Hi''"
      PlainString RichText] h l2 k
  have "best_string_from latin1_ucd (Mapping [PlainString (py ''Hello''), RichText (py ''Hi'')])
     = clean_text (if length (py ''Hello'') < length (py ''Hi'') then py ''Hi'' else py ''Hello'')"
    by blast
  then have f: "best_string_from latin1_ucd (Mapping [PlainString (py ''Hello''), RichText (py ''Hi'')])
     = py ''Hello''"
    by (simp add: length_py hello_clean)
  from c b r h l e f show ?thesis by blast
qed

text \<open>
  C4, as stated: a row whose association guid is non-null yields no record. The test of
  the source is truthiness, so a row whose association guid is the empty string is not
  dropped by it.
\<close>

theorem resolve_assoc_guid_counterexample:
  "assoc_guid (demo_row\<lparr>text_plain := Some (py ''Hi''), assoc_guid := Some []\<rparr>) \<noteq> None
   \<and> resolve latin1_ucd demo_decoders
        (demo_row\<lparr>text_plain := Some (py ''Hi''), assoc_guid := Some []\<rparr>) \<noteq> None"
  by (simp add: resolve_hi_empty_guid)

text \<open>
  C4, amended: a row whose association guid is non-null and not the empty string yields
  no record, whatever its other fields.
\<close>

theorem resolve_assoc_guid:
  "assoc_guid r = Some g \<Longrightarrow> g \<noteq> [] \<Longrightarrow> resolve U D r = None"
  by (rule resolve_assoc)

theorem resolve_assoc_guid_witness:
  "assoc_guid (demo_row\<lparr>text_plain := Some (py ''Hi''), assoc_guid := Some (py ''p:0/ABC'')\<rparr>)
      = Some (py ''p:0/ABC'')
   \<and> py ''p:0/ABC'' \<noteq> []
   \<and> resolve latin1_ucd demo_decoders
        (demo_row\<lparr>text_plain := Some (py ''Hi''), assoc_guid := Some (py ''p:0/ABC'')\<rparr>) = None"
proof -
  let ?r = "demo_row\<lparr>text_plain := Some (py ''Hi''), assoc_guid := Some (py ''p:0/ABC'')\<rparr>"
  have a: "assoc_guid ?r = Some (py ''p:0/ABC'')" by simp
  have b: "py ''p:0/ABC'' \<noteq> []" by (simp add: py_empty_iff)
  from resolve_assoc_guid [OF a b] a b show ?thesis by blast
qed

text \<open>
  C5, as stated: the role is \<open>me\<close> when the origin flag is truthy. The source compares
  the flag with 1, so a row whose flag is 2 gets the role \<open>other\<close>.
\<close>

theorem resolve_role_truthy_counterexample:
  "from_me (demo_row\<lparr>text_plain := Some (py ''Hi''), from_me := Some 2\<rparr>) = Some 2
   \<and> map_option role
        (resolve latin1_ucd demo_decoders (demo_row\<lparr>text_plain := Some (py ''Hi''), from_me := Some 2\<rparr>))
       = Some (py ''other'')"
  by (simp add: resolve_hi)

text \<open>
  C5, amended: for every emitted record, the role is \<open>me\<close> when the origin flag equals
  1, and \<open>other\<close> otherwise.
\<close>

theorem resolve_role_eq_one:
  "resolve U D r = Some out \<Longrightarrow>
     role out = (if from_me r = Some 1 then py ''me'' else py ''other'')"
  by (rule resolve_role)

theorem resolve_role_eq_one_witness:
  "map_option role
     (resolve latin1_ucd demo_decoders (demo_row\<lparr>text_plain := Some (py ''Hi''), from_me := Some 1\<rparr>))
     = Some (py ''me'')
   \<and> map_option role
     (resolve latin1_ucd demo_decoders (demo_row\<lparr>text_plain := Some (py ''Hi''), from_me := Some 0\<rparr>))
     = Some (py ''other'')"
proof -
  let ?r = "\<lambda>f. demo_row\<lparr>text_plain := Some (py ''Hi''), from_me := Some f\<rparr>"
  obtain o1 where e1: "resolve latin1_ucd demo_decoders (?r 1) = Some o1"
    by (simp add: resolve_hi)
  obtain o0 where e0: "resolve latin1_ucd demo_decoders (?r 0) = Some o0"
    by (simp add: resolve_hi)
  from resolve_role_eq_one [OF e1] have "role o1 = py ''me''" by simp
  moreover from resolve_role_eq_one [OF e0] have "role o0 = py ''other''" by simp
  ultimately show ?thesis by (simp add: e1 e0)
qed

text \<open>
  C6: a raw timestamp above \<open>10^12\<close> is taken as nanoseconds since the store epoch
  (integer-divided by \<open>10^9\<close>, plus 978307200); otherwise one above 0 is taken as seconds
  (plus 978307200); otherwise, and for a null value, no timestamp is produced and the
  formatted field is the empty string. The raw values 1700000000 and 1700000000000000000
  give the same instant.
\<close>

theorem timestamp_conversion:
  "(1000000000000 < v \<longrightarrow>
      sql_ts_unix (Some v) = Some (v div 1000000000 + 978307200)
      \<and> format_ts D (sql_ts_unix (Some v)) = strftime_utc D (v div 1000000000 + 978307200))
   \<and> (0 < v \<and> v \<le> 1000000000000 \<longrightarrow>
      sql_ts_unix (Some v) = Some (v + 978307200)
      \<and> format_ts D (sql_ts_unix (Some v)) = strftime_utc D (v + 978307200))
   \<and> (v \<le> 0 \<longrightarrow> sql_ts_unix (Some v) = None \<and> format_ts D (sql_ts_unix (Some v)) = [])
   \<and> format_ts D (sql_ts_unix None) = []
   \<and> sql_ts_unix (Some 1700000000) = sql_ts_unix (Some 1700000000000000000)"
proof -
  have a: "1000000000000 < v \<longrightarrow>
      sql_ts_unix (Some v) = Some (v div 1000000000 + 978307200)
      \<and> format_ts D (sql_ts_unix (Some v)) = strftime_utc D (v div 1000000000 + 978307200)"
  proof
    assume v: "1000000000000 < v"
    then have "sql_div v 1000000000 = v div 1000000000" by (simp add: sql_div_pos)
    with v have s: "sql_ts_unix (Some v) = Some (v div 1000000000 + 978307200)"
      by (simp add: sql_ts_unix_def)
    from v have "0 \<le> v div 1000000000" by (simp add: pos_imp_zdiv_nonneg_iff)
    then have "v div 1000000000 + 978307200 \<noteq> 0" by arith
    with s show "sql_ts_unix (Some v) = Some (v div 1000000000 + 978307200)
      \<and> format_ts D (sql_ts_unix (Some v)) = strftime_utc D (v div 1000000000 + 978307200)"
      by (simp add: format_ts_def)
  qed
  have b: "0 < v \<and> v \<le> 1000000000000 \<longrightarrow>
      sql_ts_unix (Some v) = Some (v + 978307200)
      \<and> format_ts D (sql_ts_unix (Some v)) = strftime_utc D (v + 978307200)"
    by (simp add: sql_ts_unix_def format_ts_def)
  have c: "v \<le> 0 \<longrightarrow> sql_ts_unix (Some v) = None \<and> format_ts D (sql_ts_unix (Some v)) = []"
    by (simp add: sql_ts_unix_def format_ts_def)
  have d: "format_ts D (sql_ts_unix None) = []"
    by (simp add: sql_ts_unix_def format_ts_def)
  have e: "sql_ts_unix (Some 1700000000) = sql_ts_unix (Some 1700000000000000000)"
    by (simp add: sql_ts_unix_def sql_div_pos)
  from a b c d e show ?thesis by blast
qed

theorem timestamp_conversion_witness:
  "sql_ts_unix (Some 1700000000000000000) = Some 2678307200
   \<and> sql_ts_unix (Some 1700000000) = Some 2678307200
   \<and> format_ts demo_decoders (sql_ts_unix (Some 1700000000)) = strftime_utc demo_decoders 2678307200
   \<and> sql_ts_unix (Some 0) = None
   \<and> format_ts demo_decoders (sql_ts_unix (Some (- 5))) = []"
proof -
  from timestamp_conversion [of 1700000000000000000 demo_decoders]
  have a: "sql_ts_unix (Some 1700000000000000000) = Some 2678307200" by simp
  have p: "0 < (1700000000::int) \<and> 1700000000 \<le> (1000000000000::int)" by simp
  have n: "(1700000000::int) + 978307200 = 2678307200" by simp
  from timestamp_conversion [of 1700000000 demo_decoders] p
  have "sql_ts_unix (Some 1700000000) = Some (1700000000 + 978307200)
      \<and> format_ts demo_decoders (sql_ts_unix (Some 1700000000))
          = strftime_utc demo_decoders (1700000000 + 978307200)"
    by blast
  then have b: "sql_ts_unix (Some 1700000000) = Some 2678307200"
    "format_ts demo_decoders (sql_ts_unix (Some 1700000000)) = strftime_utc demo_decoders 2678307200"
    unfolding n by blast+
  have z: "(0::int) \<le> 0" by simp
  from timestamp_conversion [of 0 demo_decoders] z
  have c: "sql_ts_unix (Some 0) = None" by blast
  have q: "(- 5::int) \<le> 0" by simp
  from timestamp_conversion [of "- 5" demo_decoders] q
  have d: "format_ts demo_decoders (sql_ts_unix (Some (- 5))) = []" by blast
  from a b c d show ?thesis by blast
qed

text \<open>
  C7, as stated: \<open>is_humanish\<close> is false when the trimmed string consists solely of
  decimal digits, and a string that is neither blank, nor solely decimal digits, nor
  contains a letter passes exactly when it contains a character of U+1F300..U+1FAFF or
  U+2600..U+27BF. The test of the source is \<open>str.isdigit\<close>, which also accepts digits
  that are not decimal digits: the string made of the circled digit U+2776 is not blank,
  is not a decimal digit, contains no letter and lies in U+2600..U+27BF, and it does not
  pass.
\<close>

theorem is_humanish_circled_digit_counterexample:
  "\<not> list_all isspace [10102]
   \<and> \<not> list_all (isdecimal dingbat_ucd) (strip [10102])
   \<and> \<not> list_ex (isalpha dingbat_ucd) [10102]
   \<and> list_ex in_emoji [10102]
   \<and> \<not> is_humanish dingbat_ucd [10102]"
  by (simp add: is_humanish_def str_isdigit_def strip_def isspace_def isdigit_def isalpha_def
      isdecimal_def dingbat_ucd_def in_emoji_def)

text \<open>
  C7, amended: \<open>is_humanish\<close> is false for an empty or all-white-space string; false
  when the trimmed string consists solely of characters that \<open>str.isdigit\<close> accepts (the
  decimal digits, and also the digits that are not decimal, such as superscript and
  circled digits); true when the string contains an alphabetic character; and otherwise
  true exactly when it contains a character of U+1F300..U+1FAFF or U+2600..U+27BF.
\<close>

theorem is_humanish_cases:
  assumes "ucd_ok U"
  shows "(list_all isspace s \<longrightarrow> \<not> is_humanish U s)
    \<and> (str_isdigit U (strip s) \<longrightarrow> \<not> is_humanish U s)
    \<and> (strip s \<noteq> [] \<and> list_all (isdecimal U) (strip s) \<longrightarrow> \<not> is_humanish U s)
    \<and> (list_ex (isalpha U) s \<longrightarrow> is_humanish U s)
    \<and> (\<not> list_all isspace s \<and> \<not> str_isdigit U (strip s) \<and> \<not> list_ex (isalpha U) s
         \<longrightarrow> is_humanish U s = list_ex in_emoji s)"
proof -
  have al: "list_ex (isalpha U) (strip s) = list_ex (isalpha U) s"
    using alpha_not_space [OF assms] by (rule list_ex_strip)
  have em: "list_ex in_emoji (strip s) = list_ex in_emoji s"
    using emoji_not_space by (rule list_ex_strip)
  have h: "is_humanish U s = (\<not> list_all isspace s \<and> \<not> str_isdigit U (strip s)
     \<and> (list_ex (isalpha U) s \<or> list_ex in_emoji s))"
    by (simp only: is_humanish_unfold al em strip_empty_iff)
  have a: "list_ex (isalpha U) s \<Longrightarrow> \<not> list_all isspace s"
    using alpha_not_space [OF assms] by (auto simp: list_ex_iff list_all_iff)
  have d: "list_ex (isalpha U) s \<Longrightarrow> \<not> str_isdigit U (strip s)"
  proof -
    assume "list_ex (isalpha U) s"
    then have "list_ex (isalpha U) (strip s)" by (simp only: al)
    then show ?thesis
      using alpha_not_digit [OF assms] by (auto simp: str_isdigit_def list_ex_iff list_all_iff)
  qed
  have e: "strip s \<noteq> [] \<and> list_all (isdecimal U) (strip s) \<Longrightarrow> str_isdigit U (strip s)"
    using decimal_is_digit [OF assms] by (auto simp: str_isdigit_def list_all_iff)
  from h a d e show ?thesis by blast
qed

theorem is_humanish_cases_witness:
  "ucd_ok dingbat_ucd
   \<and> list_all isspace [32, 9] \<and> \<not> is_humanish dingbat_ucd [32, 9]
   \<and> str_isdigit dingbat_ucd (strip (py '' 42 '')) \<and> \<not> is_humanish dingbat_ucd (py '' 42 '')
   \<and> str_isdigit dingbat_ucd (strip [10102]) \<and> \<not> is_humanish dingbat_ucd [10102]
   \<and> strip [1633, 1634] \<noteq> [] \<and> list_all (isdecimal dingbat_ucd) (strip [1633, 1634])
   \<and> \<not> is_humanish dingbat_ucd [1633, 1634]
   \<and> list_ex (isalpha dingbat_ucd) [233, 49] \<and> is_humanish dingbat_ucd [233, 49]
   \<and> \<not> list_all isspace [9728, 33] \<and> \<not> str_isdigit dingbat_ucd (strip [9728, 33])
   \<and> \<not> list_ex (isalpha dingbat_ucd) [9728, 33] \<and> list_ex in_emoji [9728, 33]
   \<and> is_humanish dingbat_ucd [9728, 33]
   \<and> \<not> list_all isspace (py ''!?'') \<and> \<not> str_isdigit dingbat_ucd (strip (py ''!?''))
   \<and> \<not> list_ex (isalpha dingbat_ucd) (py ''!?'') \<and> \<not> list_ex in_emoji (py ''!?'')
   \<and> \<not> is_humanish dingbat_ucd (py ''!?'')"
proof -
  note t = is_humanish_cases [OF dingbat_ok]
  have a: "list_all isspace [32, 9]" by (simp add: isspace_def)
  have b: "str_isdigit dingbat_ucd (strip (py '' 42 ''))"
    by (simp add: str_isdigit_def strip_def py_def isspace_def isdigit_def)
  have g: "str_isdigit dingbat_ucd (strip [10102])"
    by (simp add: str_isdigit_def strip_def isspace_def isdigit_def dingbat_ucd_def)
  have i: "strip [1633, 1634] \<noteq> []" "list_all (isdecimal dingbat_ucd) (strip [1633, 1634])"
    by (simp_all add: strip_def isspace_def isdecimal_def dingbat_ucd_def)
  have c: "list_ex (isalpha dingbat_ucd) [233, 49]"
    by (simp add: isalpha_def dingbat_ucd_def)
  have d: "\<not> list_all isspace [9728, 33]" "\<not> str_isdigit dingbat_ucd (strip [9728, 33])"
    "\<not> list_ex (isalpha dingbat_ucd) [9728, 33]" "list_ex in_emoji [9728, 33]"
    by (simp_all add: str_isdigit_def strip_def isspace_def isdigit_def isalpha_def
        dingbat_ucd_def in_emoji_def)
  have e: "\<not> list_all isspace (py ''!?'')" "\<not> str_isdigit dingbat_ucd (strip (py ''!?''))"
    "\<not> list_ex (isalpha dingbat_ucd) (py ''!?'')" "\<not> list_ex in_emoji (py ''!?'')"
    by (simp_all add: py_def str_isdigit_def strip_def isspace_def isdigit_def isalpha_def
        dingbat_ucd_def in_emoji_def)
  from t [of "[32, 9]"] a have a': "\<not> is_humanish dingbat_ucd [32, 9]" by blast
  from t [of "py '' 42 ''"] b have b': "\<not> is_humanish dingbat_ucd (py '' 42 '')" by blast
  from t [of "[10102]"] g have g': "\<not> is_humanish dingbat_ucd [10102]" by blast
  from t [of "[1633, 1634]"] i have i': "\<not> is_humanish dingbat_ucd [1633, 1634]" by blast
  from t [of "[233, 49]"] c have c': "is_humanish dingbat_ucd [233, 49]" by blast
  from t [of "[9728, 33]"] d have d': "is_humanish dingbat_ucd [9728, 33]" by blast
  from t [of "py ''!?''"] e have e': "\<not> is_humanish dingbat_ucd (py ''!?'')" by blast
  from dingbat_ok a a' b b' g g' i i' c c' d d' e e' show ?thesis by blast
qed

text \<open>
  C8: \<open>clean_text\<close> is idempotent, and a string that begins with the marker
  \<open>@NSAttributedString\<close> is normalized to the empty string. The source misses this where an
  empty first line precedes the marker: its object-dump tests run before the final strip,
  so the line feed followed by the marker is normalized to the bare marker, which a second
  application then empties, whereas the marker after a leading space is emptied at once.
  The resolver emits the bare marker as the text of such a row.
\<close>

theorem clean_text_blank_line_marker:
  "clean_text (10 # py ''@NSAttributedString'') = py ''@NSAttributedString''
   \<and> clean_text (clean_text (10 # py ''@NSAttributedString'')) = []
   \<and> clean_text (clean_text (10 # py ''@NSAttributedString''))
       \<noteq> clean_text (10 # py ''@NSAttributedString'')
   \<and> clean_text (32 # py ''@NSAttributedString'') = []
   \<and> map_option text_full
        (resolve latin1_ucd demo_decoders
           (demo_row\<lparr>text_plain := Some (10 # py ''@NSAttributedString'')\<rparr>))
       = Some (py ''@NSAttributedString'')"
proof -
  have a: "clean_text (10 # py ''@NSAttributedString'') = py ''@NSAttributedString''"
    by (rule clean_text_leading_newline_marker)
  have b: "clean_text (clean_text (10 # py ''@NSAttributedString'')) = []"
    by (simp only: a clean_text_bare_marker)
  have n: "py ''@NSAttributedString'' \<noteq> []" by (simp add: py_empty_iff)
  have c: "clean_text (clean_text (10 # py ''@NSAttributedString''))
       \<noteq> clean_text (10 # py ''@NSAttributedString'')"
    unfolding b unfolding a using n by simp
  have d: "clean_text (32 # py ''@NSAttributedString'') = []"
    by (rule clean_text_leading_space_marker)
  have e: "map_option text_full
        (resolve latin1_ucd demo_decoders
           (demo_row\<lparr>text_plain := Some (10 # py ''@NSAttributedString'')\<rparr>))
       = Some (py ''@NSAttributedString'')"
    by (simp add: resolve_def demo_row_def or_empty_def a marker_humanish format_ts_def
        py_empty_iff Let_def)
  from a b c d e show ?thesis by (intro conjI)
qed

text \<open>
  C9: for every blob, also a null or empty one, \<open>decode_attr\<close> and \<open>decode_summary\<close>
  each return the empty string or a string that passes \<open>is_humanish\<close>.
\<close>

theorem decoders_humanish_or_empty:
  "(decode_attr U D b = [] \<or> is_humanish U (decode_attr U D b))
   \<and> (decode_summary U D b = [] \<or> is_humanish U (decode_summary U D b))"
  using decode_attr_humanish [of U D b] decode_summary_humanish [of U D b] by blast


theorem decoders_humanish_or_empty_witness:
  "decode_attr latin1_ucd demo_decoders (Some [2]) = []
   \<and> is_humanish latin1_ucd (decode_attr latin1_ucd demo_decoders (Some [3]))
   \<and> decode_summary latin1_ucd demo_decoders None = []
   \<and> is_humanish latin1_ucd (decode_summary latin1_ucd demo_decoders (Some [4]))"
proof -
  have a: "decode_attr latin1_ucd demo_decoders (Some [2]) = []"
    by (simp add: decode_attr_def run_demo_2)
  have "decode_attr latin1_ucd demo_decoders (Some [3]) \<noteq> []"
    by (simp add: decode_attr_def run_demo_3 py_empty_iff)
  with decoders_humanish_or_empty [of latin1_ucd demo_decoders "Some [3]"]
  have b: "is_humanish latin1_ucd (decode_attr latin1_ucd demo_decoders (Some [3]))"
    by blast
  have c: "decode_summary latin1_ucd demo_decoders None = []"
    by (simp add: decode_summary_def)
  have "decode_summary latin1_ucd demo_decoders (Some [4]) \<noteq> []"
    by (simp add: decode_summary_def demo_decoders_def link_clean link_humanish Let_def py_empty_iff)
  with decoders_humanish_or_empty [of latin1_ucd demo_decoders "Some [4]"]
  have d: "is_humanish latin1_ucd (decode_summary latin1_ucd demo_decoders (Some [4]))"
    by blast
  from a b c d show ?thesis by blast
qed

text \<open>
  C10: the result of \<open>clean_text\<close> contains no carriage return, none of its lines begins
  or ends with white space, and neither does the result as a whole.
\<close>

theorem clean_text_tidy:
  "13 \<notin> set (clean_text s)
   \<and> (\<forall>l \<in> set (splitlines (clean_text s)).
         l = [] \<or> (\<not> isspace (hd l) \<and> \<not> isspace (last l)))
   \<and> (clean_text s = [] \<or>
        (\<not> isspace (hd (clean_text s)) \<and> \<not> isspace (last (clean_text s))))"
proof -
  from clean_text_shape [of s] obtain ls
    where lb: "line_block ls" and r: "clean_text s = join [10] ls" by blast
  have a: "13 \<notin> set (clean_text s)"
    unfolding r by (rule line_block_no_cr [OF lb])
  have "splitlines (join [10] ls) = ls"
    using lb by (intro splitlines_join) (auto simp: line_block_def plain_line_def list_all_iff)
  then have b: "\<forall>l \<in> set (splitlines (clean_text s)).
      l = [] \<or> (\<not> isspace (hd l) \<and> \<not> isspace (last l))"
    using lb by (auto simp: r line_block_def plain_line_def list_all_iff stripped_def)
  have "stripped (strip (join [10] ls))" by (rule strip_stripped)
  then have "stripped (clean_text s)" by (simp only: r line_block_strip [OF lb])
  then have c: "clean_text s = [] \<or>
      (\<not> isspace (hd (clean_text s)) \<and> \<not> isspace (last (clean_text s)))"
    by (simp only: stripped_def)
  from a b c show ?thesis by blast
qed

theorem clean_text_tidy_witness:
  "13 \<notin> set (clean_text (py '' a'' @ 13 # py ''b  ''))
   \<and> splitlines (clean_text (py '' a'' @ 13 # py ''b  '')) = [py ''a'', py ''b'']
   \<and> \<not> isspace (hd (py ''a'')) \<and> \<not> isspace (last (py ''b''))
   \<and> \<not> isspace (hd (clean_text (py '' a'' @ 13 # py ''b  '')))
   \<and> \<not> isspace (last (clean_text (py '' a'' @ 13 # py ''b  '')))"
proof -
  let ?r = "clean_text (py '' a'' @ 13 # py ''b  '')"
  note t = clean_text_tidy [of "py '' a'' @ 13 # py ''b  ''"]
  have ne: "?r \<noteq> []" by (simp add: clean_text_two_lines)
  from t have a: "13 \<notin> set ?r" by blast
  have b: "splitlines ?r = [py ''a'', py ''b'']"
    by (simp only: clean_text_two_lines two_lines_split)
  have c: "\<not> isspace (hd (py ''a''))" "\<not> isspace (last (py ''b''))"
    by (simp_all add: py_def isspace_def)
  from t ne have d: "\<not> isspace (hd ?r)" "\<not> isspace (last ?r)" by blast+
  from a b c d show ?thesis by blast
qed

end
